theory Spec2Isabelle
  imports Main "HOL-Library.Word"
begin

section \<open>Common data\<close>

text \<open>
  Bytes are 8-bit words. Go errors are values compared by identity: the two sentinels of
  package \<open>io\<close> that the reader tests for or produces, the short-write sentinel, and any other
  error, named by its message. A Go run-time panic (slice bounds, index out of range,
  integer division by zero, or the explicit \<open>panic\<close> of PKCS#7) is a result of its own.
\<close>

type_synonym byte = "8 word"

datatype error = EOF | ErrUnexpectedEOF | ErrShortWrite | Err string

datatype panic = SliceBounds | IndexOutOfRange | DivideByZero | PKCS7TooLong nat

text \<open>Calls made to the collaborators, in order, each with the length of its argument.\<close>

datatype event = SrcRead nat | CryptBlocks nat | Fill nat | DstWrite nat

text \<open>
  The builtin \<open>copy(dst, src)\<close>: the number of bytes copied, \<open>min(len(dst), len(src))\<close>,
  and \<open>dst\<close> afterwards.
\<close>

definition copy :: "byte list \<Rightarrow> byte list \<Rightarrow> nat \<times> byte list" where
  "copy dst src0 =
     (let k = min (length dst) (length src0) in (k, take k src0 @ drop k dst))"

section \<open>padding.go\<close>

text \<open>\<open>for i := range dst { dst[i] = val }\<close>\<close>

definition fill :: "byte list \<Rightarrow> byte \<Rightarrow> byte list" where
  "fill dst val = map (\<lambda>_. val) dst"

type_synonym Padding = "byte list \<Rightarrow> panic + byte list"

definition ZeroPadding :: Padding where
  "ZeroPadding dst = Inr (fill dst 0)"

text \<open>\<open>dst[0] = 0x80\<close> is an index out of range on an empty slice.\<close>

fun BitPadding :: Padding where
  "BitPadding [] = Inl IndexOutOfRange"
| "BitPadding (d # ds) = Inr (0x80 # fill ds 0)"

definition PKCS7Padding :: Padding where
  "PKCS7Padding dst =
     (let n = length dst
      in if n > 255 then Inl (PKCS7TooLong n) else Inr (fill dst (of_nat n)))"

section \<open>reader.go\<close>

text \<open>
  The wrapped \<open>io.Reader\<close> and the \<open>cipher.BlockMode\<close> are collaborators outside the
  repository: each is a state of an arbitrary type and a function on it, given to \<open>Read\<close>
  as parameters.

  \<^item> \<open>src.Read(p)\<close> gets the length of \<open>p\<close> and answers the bytes it stored at the front of
    \<open>p\<close> and an error; \<open>n\<close> is the number of those bytes. The contract of \<open>io.Reader\<close>,
    \<open>0 <= n <= len(p)\<close>, is part of \<open>src_Read\<close>: an answer is cut to the length asked for.
  \<^item> \<open>CryptBlocks(dst, src)\<close> is only ever called with \<open>dst = src\<close>: it rewrites the slice
    in place, so the slice keeps its length, and it advances the state of the mode (the
    chaining value of CBC).
\<close>

type_synonym 'u io_Reader = "'u \<Rightarrow> nat \<Rightarrow> (byte list \<times> error option) \<times> 'u"
type_synonym 'c BlockMode = "'c \<Rightarrow> byte list \<Rightarrow> byte list \<times> 'c"

definition src_Read :: "'u io_Reader \<Rightarrow> 'u \<Rightarrow> nat \<Rightarrow> (byte list \<times> error option) \<times> 'u" where
  "src_Read rd u k = (case rd u k of ((data, e), u') \<Rightarrow> ((take k data, e), u'))"

definition CryptBlocks_inplace :: "'c BlockMode \<Rightarrow> 'c \<Rightarrow> byte list \<Rightarrow> byte list \<times> 'c" where
  "CryptBlocks_inplace cb c xs =
     (case cb c xs of (ys, c') \<Rightarrow> (take (length xs) ys @ drop (length ys) xs, c'))"

text \<open>
  \<open>buf\<close> is the slice \<open>r.buf\<close> (its length is \<open>len(r.buf)\<close>; its capacity is \<open>blockSize\<close>,
  fixed by \<open>make\<close>). Lengths and \<open>crypted\<close> are natural numbers.
\<close>

record ('u, 'c) blockReader =
  src :: 'u
  blockMode :: 'c
  blockSize :: nat
  buf :: "byte list"
  crypted :: nat
  eof :: bool

text \<open>
  What one call of \<open>Read\<close> leaves behind: the two results, the whole destination as it is
  after the call, the reader, and the calls made to the collaborators.
\<close>

record ('u, 'c) read_result =
  count :: nat
  err :: "error option"
  dest :: "byte list"
  reader :: "('u, 'c) blockReader"
  calls :: "event list"

definition NewBlockReader :: "'u \<Rightarrow> 'c \<Rightarrow> nat \<Rightarrow> ('u, 'c) blockReader" where
  "NewBlockReader s m bs =
     \<lparr>src = s, blockMode = m, blockSize = bs, buf = [], crypted = 0, eof = False\<rparr>"

text \<open>
  The branch \<open>len(p) < r.blockSize\<close> (lines 67 to 85). \<open>done\<close> is the part of the caller's
  destination in front of the resliced \<open>p\<close>.
\<close>

definition Read_small ::
  "'u io_Reader \<Rightarrow> 'c BlockMode \<Rightarrow> ('u, 'c) blockReader \<Rightarrow> nat \<Rightarrow> byte list \<Rightarrow> byte list
     \<Rightarrow> panic + ('u, 'c) read_result" where
  "Read_small rd cb r cnt done p =
     (if blockSize r < length (buf r) then Inl SliceBounds
      else
        case src_Read rd (src r) (blockSize r - length (buf r)) of ((data, e), u') \<Rightarrow>
          let ev = [SrcRead (blockSize r - length (buf r))];
              r1 = r\<lparr>src := u', buf := buf r @ data\<rparr>;
              (r2, cnt2, p2, ev2) =
                (if length (buf r1) = blockSize r1 then
                   (case CryptBlocks_inplace cb (blockMode r1) (buf r1) of (blk, c') \<Rightarrow>
                      case copy p blk of (copied, p') \<Rightarrow>
                        (r1\<lparr>blockMode := c', buf := blk, crypted := blockSize r1 - copied\<rparr>,
                         cnt + copied, p', ev @ [CryptBlocks (length (buf r1))]))
                 else (r1, cnt, p, ev))
          in
            if e = Some EOF then
              (if crypted r2 > 0 then
                 Inr \<lparr>count = cnt2, err = None, dest = done @ p2,
                      reader = r2\<lparr>eof := True\<rparr>, calls = ev2\<rparr>
               else if length (buf r2) > 0 then
                 Inr \<lparr>count = cnt2, err = Some ErrUnexpectedEOF, dest = done @ p2,
                      reader = r2, calls = ev2\<rparr>
               else
                 Inr \<lparr>count = cnt2, err = e, dest = done @ p2, reader = r2, calls = ev2\<rparr>)
            else
              Inr \<lparr>count = cnt2, err = e, dest = done @ p2, reader = r2, calls = ev2\<rparr>)"

text \<open>
  The rest of \<open>Read\<close> (lines 87 to 106), for \<open>len(p) >= r.blockSize\<close>. The source writes
  behind the buffered bytes' place in \<open>p\<close>; \<open>available % r.blockSize\<close> panics for a block
  size of zero. \<open>r.buf[:buffered]\<close> grows the slice over its backing array and \<open>copy\<close>
  then overwrites the \<open>newlyBuffered\<close> bytes so uncovered.
\<close>

definition Read_large ::
  "'u io_Reader \<Rightarrow> 'c BlockMode \<Rightarrow> ('u, 'c) blockReader \<Rightarrow> nat \<Rightarrow> byte list \<Rightarrow> byte list
     \<Rightarrow> panic + ('u, 'c) read_result" where
  "Read_large rd cb r cnt done p =
     (if length p < length (buf r) then Inl SliceBounds
      else
        case src_Read rd (src r) (length p - length (buf r)) of ((data, e), u') \<Rightarrow>
          if blockSize r = 0 then Inl DivideByZero
          else
            let ev = [SrcRead (length p - length (buf r))];
                p1 = take (length (buf r)) p @ data @ drop (length (buf r) + length data) p;
                available = length (buf r) + length data;
                buffered = available mod blockSize r;
                crypted' = available - buffered;
                (r2, cnt2, p2, ev2) =
                  (if crypted' > 0 then
                     (case copy p1 (buf r) of (_, pa) \<Rightarrow>
                        case CryptBlocks_inplace cb (blockMode r) (take crypted' pa) of (blk, c') \<Rightarrow>
                          (r\<lparr>src := u', blockMode := c', buf := []\<rparr>,
                           cnt + crypted', blk @ drop crypted' pa, ev @ [CryptBlocks crypted']))
                   else (r\<lparr>src := u'\<rparr>, cnt, p1, ev));
                newlyBuffered = buffered - length (buf r2);
                r3 = r2\<lparr>buf := take (buffered - newlyBuffered) (buf r2)
                                 @ take newlyBuffered (drop (available - newlyBuffered) p2)\<rparr>
            in
              Inr \<lparr>count = cnt2,
                   err = (if e = Some EOF \<and> buffered > 0 then Some ErrUnexpectedEOF else e),
                   dest = done @ p2, reader = r3, calls = ev2\<rparr>)"

text \<open>Lines 60 to 65 and the choice between the two branches.\<close>

definition Read_fresh ::
  "'u io_Reader \<Rightarrow> 'c BlockMode \<Rightarrow> ('u, 'c) blockReader \<Rightarrow> nat \<Rightarrow> byte list \<Rightarrow> byte list
     \<Rightarrow> panic + ('u, 'c) read_result" where
  "Read_fresh rd cb r cnt done p =
     (if eof r then
        Inr \<lparr>count = cnt, err = Some EOF, dest = done @ p, reader = r, calls = []\<rparr>
      else if length p = 0 then
        Inr \<lparr>count = cnt, err = None, dest = done @ p, reader = r, calls = []\<rparr>
      else if length p < blockSize r then Read_small rd cb r cnt done p
      else Read_large rd cb r cnt done p)"

text \<open>
  \<open>Read\<close>, from the top (lines 46 to 58): \<open>r.buf[r.blockSize-r.crypted:]\<close> needs
  \<open>0 <= blockSize - crypted <= len(r.buf)\<close>.
\<close>

definition Read ::
  "'u io_Reader \<Rightarrow> 'c BlockMode \<Rightarrow> ('u, 'c) blockReader \<Rightarrow> byte list
     \<Rightarrow> panic + ('u, 'c) read_result" where
  "Read rd cb r p =
     (if crypted r > 0 then
        (if blockSize r < crypted r \<or> length (buf r) < blockSize r - crypted r
         then Inl SliceBounds
         else
           case copy p (drop (blockSize r - crypted r) (buf r)) of (copied, p1) \<Rightarrow>
             let r1 = r\<lparr>crypted := crypted r - copied\<rparr>
             in if crypted r1 > 0 then
                  Inr \<lparr>count = copied, err = None, dest = p1, reader = r1, calls = []\<rparr>
                else
                  Read_fresh rd cb (r1\<lparr>buf := []\<rparr>) copied (take copied p1) (drop copied p1))
      else Read_fresh rd cb r 0 [] p)"

text \<open>
  The state invariant of the reader: the block size is positive, and either nothing
  transformed is pending and less than a block is buffered, or a whole transformed block is
  in the buffer and \<open>crypted\<close> of its bytes, at most a block, are still to be delivered.
\<close>

definition reader_inv :: "('u, 'c) blockReader \<Rightarrow> bool" where
  "reader_inv r \<longleftrightarrow>
     0 < blockSize r \<and> crypted r \<le> blockSize r \<and> length (buf r) \<le> blockSize r \<and>
     (crypted r = 0 \<and> length (buf r) < blockSize r
      \<or> 0 < crypted r \<and> length (buf r) = blockSize r)"

fun is_SrcRead :: "event \<Rightarrow> bool" where
  "is_SrcRead (SrcRead k) = True"
| "is_SrcRead e = False"

fun is_CryptBlocks :: "event \<Rightarrow> bool" where
  "is_CryptBlocks (CryptBlocks k) = True"
| "is_CryptBlocks e = False"

section \<open>The test doubles of the reader tests\<close>

text \<open>
  The mocked \<open>io.Reader\<close> of \<open>TestReader\<close>: the expected calls are a script, and each call
  answers the next scripted bytes and error. A call beyond the script is an error (the mock
  controller fails the test there).
\<close>

fun mock_Read :: "(byte list \<times> error option) list io_Reader" where
  "mock_Read [] k = (([], Some (Err ''unexpected call'')), [])"
| "mock_Read (a # as) k = (a, as)"

text \<open>
  A block mode with a chaining state, standing for the CBC encrypter of the tests: every
  byte is shifted by the state, and each call advances the state.
\<close>

definition shift_mode :: "byte BlockMode" where
  "shift_mode k xs = (map (\<lambda>b. b + k) xs, k + 1)"

definition testErr :: error where
  "testErr = Err ''test error''"

text \<open>A new reader over a scripted source, with the mode's chaining state at 100.\<close>

definition mock_reader ::
  "(byte list \<times> error option) list \<Rightarrow> nat
     \<Rightarrow> ((byte list \<times> error option) list, byte) blockReader" where
  "mock_reader script bs = NewBlockReader script 100 bs"

text \<open>
  The loop over the steps of a test case: each step reads into a fresh zeroed buffer of the
  given length, and records \<open>n\<close>, \<open>err\<close>, the delivered bytes \<open>buf[:n]\<close> and the calls made.
\<close>

fun Read_steps ::
  "'u io_Reader \<Rightarrow> 'c BlockMode \<Rightarrow> ('u, 'c) blockReader \<Rightarrow> nat list
     \<Rightarrow> (panic + nat \<times> error option \<times> byte list \<times> event list) list" where
  "Read_steps rd cb r [] = []"
| "Read_steps rd cb r (n # ns) =
     (case Read rd cb r (replicate n 0) of
        Inl pn \<Rightarrow> [Inl pn]
      | Inr res \<Rightarrow>
          Inr (count res, err res, take (count res) (dest res), calls res)
            # Read_steps rd cb (reader res) ns)"

section \<open>The writer\<close>

text \<open>
  Modelled from the spec: \<open>writer.go\<close> (\<open>NewBlockWriter\<close>, \<open>NewBlockWriterWithPadding\<close>,
  \<open>Write\<close> and \<open>Close\<close>) is not among the sources; only its test, \<open>TestWriter\<close>, is. The
  definitions of this section follow sections 3, 4.3 and 6 of the specification, and the
  test where the specification leaves a number open.
\<close>

text \<open>
  Modelled from the spec: the byte-output sink, \<open>push(buffer) -> (bytesWritten, status)\<close>;
  it cannot accept more bytes than it is given.
\<close>

type_synonym 's io_Writer = "'s \<Rightarrow> byte list \<Rightarrow> (nat \<times> error option) \<times> 's"

text \<open>
  Modelled from the spec: a push of the writer to its sink; the count the sink reports is
  at most the length of the buffer pushed.
\<close>

definition dst_Write :: "'s io_Writer \<Rightarrow> 's \<Rightarrow> byte list \<Rightarrow> (nat \<times> error option) \<times> 's" where
  "dst_Write push s xs = (case push s xs of ((n, e), s') \<Rightarrow> ((min n (length xs), e), s'))"

text \<open>
  Modelled from the spec: \<open>fill(buffer)\<close> writes into an already allocated region, the
  unused tail of a block, which keeps its length; a padding may fail fatally.
\<close>

definition Fill_inplace :: "Padding \<Rightarrow> byte list \<Rightarrow> panic + byte list" where
  "Fill_inplace f tail =
     (case f tail of
        Inl pn \<Rightarrow> Inl pn
      | Inr t \<Rightarrow> Inr (take (length tail) t @ drop (length t) tail))"

text \<open>
  Modelled from the spec: the writer state of section 3 (sink handle, transform handle,
  optional padding capability, the buffered not yet transformed bytes, the closed flag and
  the sticky fault slot). The staging region lives only during a call.
\<close>

record ('s, 'c) blockWriter =
  sink :: 's
  w_blockMode :: 'c
  w_blockSize :: nat
  padding :: "Padding option"
  buffered :: "byte list"
  closed :: bool
  fault :: "error option"

text \<open>
  Modelled from the spec: the ceiling of the staging region, "on the order of 1024 blocks";
  the test sees batches of 1024 blocks.
\<close>

definition stagingBlocks :: nat where
  "stagingBlocks = 1024"

text \<open>
  Modelled from the spec: what a \<open>write\<close> call leaves behind: the number of source bytes
  consumed, the status, the caller's source region after the call, the writer, and the
  calls made to the collaborators.
\<close>

record ('s, 'c) write_result =
  w_count :: nat
  w_err :: "error option"
  source_after :: "byte list"
  writer :: "('s, 'c) blockWriter"
  w_calls :: "event list"

text \<open>Modelled from the spec: what a \<open>finalize\<close> call leaves behind.\<close>

record ('s, 'c) close_result =
  c_err :: "error option"
  c_writer :: "('s, 'c) blockWriter"
  c_calls :: "event list"

text \<open>
  Modelled from the spec: the whole blocks that are ready, cut into batches of at most the
  staging capacity.
\<close>

definition batches :: "nat \<Rightarrow> byte list \<Rightarrow> byte list list" where
  "batches m xs = map (\<lambda>i. take m (drop (i * m) xs)) [0..<(length xs + m - 1) div m]"

text \<open>
  Modelled from the spec: each batch is copied into the staging region, transformed there
  and pushed downstream; a push that reports an error, or a short write without one, stops
  the loop with that fault. The loop keeps the caller's source region as it found it, and
  counts the bytes the sink accepted.
\<close>

fun push_batches ::
  "'s io_Writer \<Rightarrow> 'c BlockMode \<Rightarrow> byte list list \<Rightarrow> 's \<times> 'c \<times> byte list \<times> nat \<times> event list
     \<Rightarrow> ('s \<times> 'c \<times> byte list \<times> nat \<times> event list) \<times> error option" where
  "push_batches push cb [] st = (st, None)"
| "push_batches push cb (b # bs) (s, c, source, accepted, ev) =
     (case CryptBlocks_inplace cb c b of (staging, c') \<Rightarrow>
        case dst_Write push s staging of ((n, e), s') \<Rightarrow>
          let st' = (s', c', source, accepted + n,
                     ev @ [CryptBlocks (length b), DstWrite (length staging)])
          in if e \<noteq> None then (st', e)
             else if n < length staging then (st', Some ErrShortWrite)
             else push_batches push cb bs st')"

text \<open>
  Modelled from the spec: \<open>write(source)\<close>. A faulted writer answers its fault at once.
  Otherwise the source bytes follow the buffered ones, the whole blocks so assembled go
  downstream in batches, and what does not complete a block stays buffered. On a fault the
  count is what the sink accepted beyond the bytes buffered before the call (as the test
  cases \<open>WriteErr\<close>, \<open>WriteErrWithBuffer\<close> and \<open>WriteErrWithBufferOnly\<close> expect). The spec
  gives the closed flag no part in \<open>write\<close>.
\<close>

definition Write ::
  "'s io_Writer \<Rightarrow> 'c BlockMode \<Rightarrow> ('s, 'c) blockWriter \<Rightarrow> byte list \<Rightarrow> ('s, 'c) write_result" where
  "Write push cb w source =
     (case fault w of
        Some e \<Rightarrow>
          \<lparr>w_count = 0, w_err = Some e, source_after = source, writer = w, w_calls = []\<rparr>
      | None \<Rightarrow>
          let pending = buffered w @ source;
              ready = (length pending div w_blockSize w) * w_blockSize w
          in case push_batches push cb
                    (batches (stagingBlocks * w_blockSize w) (take ready pending))
                    (sink w, w_blockMode w, source, 0, []) of
               ((s', c', source', accepted, ev), Some e) \<Rightarrow>
                 \<lparr>w_count = accepted - length (buffered w), w_err = Some e,
                  source_after = source',
                  writer = w\<lparr>sink := s', w_blockMode := c', fault := Some e\<rparr>,
                  w_calls = ev\<rparr>
             | ((s', c', source', accepted, ev), None) \<Rightarrow>
                 \<lparr>w_count = length source, w_err = None, source_after = source',
                  writer = w\<lparr>sink := s', w_blockMode := c', buffered := drop ready pending\<rparr>,
                  w_calls = ev\<rparr>)"

text \<open>
  Modelled from the spec: \<open>finalize()\<close>. A faulted writer answers its fault; a writer that
  was finalized with success, or has nothing buffered, succeeds without touching the sink;
  buffered bytes without a padding are the permanent fault \<open>truncated-stream\<close>; with a
  padding the tail of the block is filled, the block transformed and pushed, and a push
  that fails (or is short) becomes the sticky fault.
\<close>

definition Close ::
  "'s io_Writer \<Rightarrow> 'c BlockMode \<Rightarrow> ('s, 'c) blockWriter \<Rightarrow> panic + ('s, 'c) close_result" where
  "Close push cb w =
     (case fault w of
        Some e \<Rightarrow> Inr \<lparr>c_err = Some e, c_writer = w, c_calls = []\<rparr>
      | None \<Rightarrow>
          if closed w then Inr \<lparr>c_err = None, c_writer = w, c_calls = []\<rparr>
          else if buffered w = [] then
            Inr \<lparr>c_err = None, c_writer = w\<lparr>closed := True\<rparr>, c_calls = []\<rparr>
          else
            case padding w of
              None \<Rightarrow>
                Inr \<lparr>c_err = Some ErrUnexpectedEOF,
                     c_writer = w\<lparr>fault := Some ErrUnexpectedEOF\<rparr>, c_calls = []\<rparr>
            | Some f \<Rightarrow>
                (case Fill_inplace f (replicate (w_blockSize w - length (buffered w)) 0) of
                   Inl pn \<Rightarrow> Inl pn
                 | Inr tail \<Rightarrow>
                     case CryptBlocks_inplace cb (w_blockMode w) (buffered w @ tail) of
                       (blk, c') \<Rightarrow>
                         case dst_Write push (sink w) blk of ((n, e), s') \<Rightarrow>
                           let ev = [Fill (length tail), CryptBlocks (length blk),
                                     DstWrite (length blk)];
                               w1 = w\<lparr>sink := s', w_blockMode := c'\<rparr>
                           in if e \<noteq> None then
                                Inr \<lparr>c_err = e, c_writer = w1\<lparr>fault := e\<rparr>, c_calls = ev\<rparr>
                              else if n < length blk then
                                Inr \<lparr>c_err = Some ErrShortWrite,
                                     c_writer = w1\<lparr>fault := Some ErrShortWrite\<rparr>,
                                     c_calls = ev\<rparr>
                              else
                                Inr \<lparr>c_err = None,
                                     c_writer = w1\<lparr>buffered := [], closed := True\<rparr>,
                                     c_calls = ev\<rparr>))"

text \<open>
  Modelled from the spec: \<open>newWriterWithPadding(sink, transform, padding)\<close> of section 6; the
  block size is the transform's.
\<close>

definition NewBlockWriterWithPadding ::
  "'s \<Rightarrow> 'c \<Rightarrow> nat \<Rightarrow> Padding option \<Rightarrow> ('s, 'c) blockWriter" where
  "NewBlockWriterWithPadding s m bs pad =
     \<lparr>sink = s, w_blockMode = m, w_blockSize = bs, padding = pad, buffered = [],
      closed = False, fault = None\<rparr>"

text \<open>Modelled from the spec: \<open>newWriter(sink, transform)\<close>, a writer without a padding.\<close>

definition NewBlockWriter :: "'s \<Rightarrow> 'c \<Rightarrow> nat \<Rightarrow> ('s, 'c) blockWriter" where
  "NewBlockWriter s m bs = NewBlockWriterWithPadding s m bs None"

text \<open>
  The mocked \<open>io.Writer\<close> of \<open>TestWriter\<close>: each call answers the next scripted count and
  error.
\<close>

fun mock_Write :: "(nat \<times> error option) list io_Writer" where
  "mock_Write [] xs = ((0, Some (Err ''unexpected call'')), [])"
| "mock_Write (a # as) xs = (a, as)"

text \<open>
  The loop over the steps of a writer test case: a step writes a source region or closes,
  and records the count, the status and the calls made.
\<close>

text \<open>A new writer over a scripted sink, with the mode's chaining state at 100.\<close>

definition mock_writer ::
  "(nat \<times> error option) list \<Rightarrow> nat \<Rightarrow> Padding option
     \<Rightarrow> ((nat \<times> error option) list, byte) blockWriter" where
  "mock_writer script bs pad = NewBlockWriterWithPadding script 100 bs pad"

datatype action = writeAction "byte list" | closeAction

fun Write_steps ::
  "'s io_Writer \<Rightarrow> 'c BlockMode \<Rightarrow> ('s, 'c) blockWriter \<Rightarrow> action list
     \<Rightarrow> (panic + nat \<times> error option \<times> event list) list" where
  "Write_steps push cb w [] = []"
| "Write_steps push cb w (writeAction source # as) =
     (let res = Write push cb w source
      in Inr (w_count res, w_err res, w_calls res) # Write_steps push cb (writer res) as)"
| "Write_steps push cb w (closeAction # as) =
     (case Close push cb w of
        Inl pn \<Rightarrow> [Inl pn]
      | Inr res \<Rightarrow> Inr (0, c_err res, c_calls res) # Write_steps push cb (c_writer res) as)"

section \<open>Properties of the paddings\<close>

lemma fill_replicate: "fill dst v = replicate (length dst) v"
  by (simp add: fill_def map_replicate_const)

text \<open>
  C8. For a buffer of length \<open>n\<close> with \<open>1 \<le> n\<close>, each built-in padding's \<open>Fill\<close> leaves
  exactly \<open>n\<close> bytes that depend on \<open>n\<close> alone, whatever the buffer held before:
  \<open>ZeroPadding\<close> leaves \<open>n\<close> zero bytes, \<open>BitPadding\<close> leaves \<open>0x80\<close> and then \<open>n - 1\<close> zero
  bytes, \<open>PKCS7Padding\<close> leaves \<open>n\<close> copies of the byte \<open>n\<close> when \<open>n \<le> 255\<close> and panics when
  \<open>n\<close> exceeds 255.
\<close>

theorem padding_fill_pure:
  assumes "length dst = n" and "1 \<le> n"
  shows "ZeroPadding dst = Inr (replicate n 0)
       \<and> BitPadding dst = Inr (0x80 # replicate (n - 1) 0)
       \<and> (n \<le> 255 \<longrightarrow> PKCS7Padding dst = Inr (replicate n (of_nat n)))
       \<and> (255 < n \<longrightarrow> PKCS7Padding dst = Inl (PKCS7TooLong n))"
proof -
  from assms obtain d ds where dst: "dst = d # ds"
    by (cases dst) auto
  have "BitPadding dst = Inr (0x80 # replicate (n - 1) 0)"
    using assms by (simp add: dst fill_replicate)
  then show ?thesis
    using assms by (auto simp: ZeroPadding_def PKCS7Padding_def fill_replicate)
qed

text \<open>
  The conformance vectors of the tests: a 5-byte buffer with other contents, and a
  256-byte buffer for PKCS#7.
\<close>

theorem padding_fill_pure_witness:
  "ZeroPadding [1, 2, 3, 4, 5] = Inr [0, 0, 0, 0, 0]
   \<and> BitPadding [1, 2, 3, 4, 5] = Inr [0x80, 0, 0, 0, 0]
   \<and> PKCS7Padding [1, 2, 3, 4, 5] = Inr [5, 5, 5, 5, 5]
   \<and> PKCS7Padding (replicate 256 7) = Inl (PKCS7TooLong 256)"
  using padding_fill_pure [of "[1, 2, 3, 4, 5]" 5]
        padding_fill_pure [of "replicate 256 7" 256]
  by (simp add: numeral_eq_Suc)

section \<open>Properties of the reader\<close>

lemma src_Read_length:
  "src_Read rd u k = ((data, e), u') \<Longrightarrow> length data \<le> k"
  by (auto simp: src_Read_def split: prod.splits)

lemma CryptBlocks_inplace_length:
  "CryptBlocks_inplace cb c xs = (ys, c') \<Longrightarrow> length ys = length xs"
  by (auto simp: CryptBlocks_inplace_def split: prod.splits)

lemma copy_fst: "copy dst s = (k, d') \<Longrightarrow> k = min (length dst) (length s)"
  by (auto simp: copy_def Let_def)

lemma copy_length: "copy dst s = (k, d') \<Longrightarrow> length d' = length dst"
  by (auto simp: copy_def Let_def)

lemma Read_small_inv:
  assumes "reader_inv r" "crypted r = 0" "p \<noteq> []" "length p < blockSize r"
  shows "\<exists>res. Read_small rd cb r cnt done p = Inr res \<and> reader_inv (reader res)"
proof -
  obtain data e u' where sr: "src_Read rd (src r) (blockSize r - length (buf r)) = ((data, e), u')"
    by (metis prod.exhaust)
  note len = src_Read_length [OF sr]
  obtain blk c' where cr: "CryptBlocks_inplace cb (blockMode r) (buf r @ data) = (blk, c')"
    by (metis prod.exhaust)
  note bl = CryptBlocks_inplace_length [OF cr]
  obtain k p' where cp: "copy p blk = (k, p')"
    by (metis prod.exhaust)
  note kk = copy_fst [OF cp]
  show ?thesis
    using assms len bl kk
    by (auto simp: Read_small_def sr cr cp reader_inv_def Let_def)
qed

lemma Read_large_inv:
  assumes "reader_inv r" "crypted r = 0" "blockSize r \<le> length p"
  shows "\<exists>res. Read_large rd cb r cnt done p = Inr res \<and> reader_inv (reader res)"
proof -
  obtain data e u' where sr: "src_Read rd (src r) (length p - length (buf r)) = ((data, e), u')"
    by (metis prod.exhaust)
  note len = src_Read_length [OF sr]
  define av where "av = length (buf r) + length data"
  have bs: "0 < blockSize r" "length (buf r) < blockSize r"
    using assms by (auto simp: reader_inv_def)
  have avp: "av \<le> length p" using len bs assms by (simp add: av_def)
  have md: "av mod blockSize r < blockSize r" using bs by simp
  show ?thesis
  proof (cases "av - av mod blockSize r > 0")
    case True
    obtain k pa where cp: "copy (take (length (buf r)) p @ data @ drop av p) (buf r) = (k, pa)"
      by (metis prod.exhaust)
    have lpa: "length pa = length p"
      using copy_length [OF cp] avp by (simp add: av_def)
    obtain blk c' where cr: "CryptBlocks_inplace cb (blockMode r) (take (av - av mod blockSize r) pa) = (blk, c')"
      by (metis prod.exhaust)
    have lblk: "length blk = av - av mod blockSize r"
      using CryptBlocks_inplace_length [OF cr] lpa avp by simp
    show ?thesis
      using assms bs True md avp lpa lblk
      by (simp add: Read_large_def sr reader_inv_def Let_def av_def [symmetric] cp cr)
  next
    case False
    then have "av mod blockSize r = av"
      by (metis mod_less_eq_dividend le_antisym diff_is_0_eq not_gr_zero)
    then have eq: "(length (buf r) + length data) mod blockSize r = length (buf r) + length data"
      by (simp add: av_def)
    have "length (buf r) + length data < blockSize r"
      using md eq by (simp add: av_def)
    then show ?thesis
      using assms bs avp
      by (simp add: Read_large_def sr reader_inv_def Let_def eq av_def)
  qed
qed

lemma Read_fresh_inv:
  assumes "reader_inv r" "crypted r = 0"
  shows "\<exists>res. Read_fresh rd cb r cnt done p = Inr res \<and> reader_inv (reader res)"
  using assms Read_small_inv [of r p rd cb cnt "done"] Read_large_inv [of r p rd cb cnt "done"]
  by (auto simp: Read_fresh_def)

lemma Read_inv:
  assumes "reader_inv r"
  shows "\<exists>res. Read rd cb r p = Inr res \<and> reader_inv (reader res)"
proof (cases "crypted r > 0")
  case False
  then show ?thesis using assms Read_fresh_inv [of r rd cb 0 "[]" p] by (simp add: Read_def)
next
  case True
  obtain k p1 where cp: "copy p (drop (blockSize r - crypted r) (buf r)) = (k, p1)"
    by (metis prod.exhaust)
  note kk = copy_fst [OF cp]
  show ?thesis
  proof (cases "crypted r - k > 0")
    case True
    then show ?thesis using assms \<open>crypted r > 0\<close> kk
      by (auto simp: Read_def cp reader_inv_def Let_def)
  next
    case False
    have "reader_inv (r\<lparr>crypted := crypted r - k, buf := []\<rparr>)"
      using assms False by (auto simp: reader_inv_def)
    from Read_fresh_inv [OF this, of rd cb k "take k p1" "drop k p1"] False
    show ?thesis using assms \<open>crypted r > 0\<close>
      by (auto simp: Read_def cp reader_inv_def Let_def)
  qed
qed

text \<open>
  C7. The state invariant holds of a new reader (the block size of a block mode is
  positive), and every call of \<open>Read\<close> on a reader that satisfies it returns and leaves a
  reader that satisfies it. Under the invariant the buffer never holds more than a block, and
  either \<open>crypted\<close> is zero and less than a block is buffered (bytes read and not yet
  transformed), or \<open>crypted\<close> is positive and the buffer holds exactly one block (the
  transformed one).
\<close>

theorem reader_invariant:
  "(0 < bs \<longrightarrow> reader_inv (NewBlockReader s m bs))
   \<and> (reader_inv r \<longrightarrow>
        (\<exists>res. Read rd cb r p = Inr res \<and> reader_inv (reader res)))
   \<and> (reader_inv r \<longrightarrow>
        length (buf r) \<le> blockSize r
        \<and> (crypted r = 0 \<and> length (buf r) < blockSize r
            \<or> 0 < crypted r \<and> length (buf r) = blockSize r))"
  using Read_inv [of r rd cb p]
  by (auto simp: reader_inv_def NewBlockReader_def)

text \<open>
  A new reader of block size 4, and the reader left by a call for 2 bytes: a whole
  transformed block in the buffer, 2 of its bytes pending.
\<close>

theorem reader_invariant_witness:
  "reader_inv (mock_reader [([1, 2, 3, 4], None)] 4)
   \<and> Read mock_Read shift_mode (mock_reader [([1, 2, 3, 4], None)] 4) [0, 0]
     = Inr \<lparr>count = 2, err = None, dest = [101, 102],
            reader = \<lparr>src = [], blockMode = 101, blockSize = 4, buf = [101, 102, 103, 104],
                      crypted = 2, eof = False\<rparr>,
            calls = [SrcRead 4, CryptBlocks 4]\<rparr>
   \<and> reader_inv \<lparr>src = [] :: (byte list \<times> error option) list, blockMode = 101 :: byte,
                  blockSize = 4, buf = [101, 102, 103, 104], crypted = 2, eof = False\<rparr>"
proof -
  have "Read mock_Read shift_mode (mock_reader [([1, 2, 3, 4], None)] 4) [0, 0]
     = Inr \<lparr>count = 2, err = None, dest = [101, 102],
            reader = \<lparr>src = [], blockMode = 101, blockSize = 4, buf = [101, 102, 103, 104],
                      crypted = 2, eof = False\<rparr>,
            calls = [SrcRead 4, CryptBlocks 4]\<rparr>"
    by code_simp
  then show ?thesis
    using reader_invariant
            [where r = "mock_reader [([1, 2, 3, 4], None)] 4" and rd = mock_Read
               and cb = shift_mode and p = "[0, 0]" and bs = 4
               and s = "[([1, 2, 3, 4 :: byte], None :: error option)]" and m = "100 :: byte"]
    by (auto simp: mock_reader_def)
qed

lemma Read_small_calls:
  assumes "Read_small rd cb r cnt done p = Inr res"
  shows "\<exists>k. k = blockSize r - length (buf r)
           \<and> (calls res = [SrcRead k] \<or> (\<exists>m. calls res = [SrcRead k, CryptBlocks m]))"
  using assms
  by (auto simp: Read_small_def Let_def split: if_splits prod.splits)

lemma Read_large_calls:
  assumes "Read_large rd cb r cnt done p = Inr res"
  shows "\<exists>k. k = length p - length (buf r)
           \<and> (calls res = [SrcRead k] \<or> (\<exists>m. calls res = [SrcRead k, CryptBlocks m]))"
  using assms
  by (auto simp: Read_large_def Let_def split: if_splits prod.splits)

lemma Read_fresh_calls:
  assumes "Read_fresh rd cb r cnt done p = Inr res"
  shows "calls res = []
         \<or> (\<exists>k. k = (if length p < blockSize r then blockSize r - length (buf r)
                      else length p - length (buf r))
               \<and> (calls res = [SrcRead k] \<or> (\<exists>m. calls res = [SrcRead k, CryptBlocks m])))"
proof -
  consider "eof r \<or> length p = 0" | "\<not> eof r" "length p \<noteq> 0" "length p < blockSize r"
    | "\<not> eof r" "length p \<noteq> 0" "\<not> length p < blockSize r"
    by blast
  then show ?thesis
  proof cases
    case 1
    with assms show ?thesis by (auto simp: Read_fresh_def split: if_splits)
  next
    case 2
    with assms have "Read_small rd cb r cnt done p = Inr res" by (simp add: Read_fresh_def)
    from Read_small_calls [OF this] 2 show ?thesis by simp
  next
    case 3
    with assms have "Read_large rd cb r cnt done p = Inr res" by (simp add: Read_fresh_def)
    from Read_large_calls [OF this] 3 show ?thesis by simp
  qed
qed

lemma Read_fresh_or_pending:
  assumes "Read rd cb r p = Inr res"
  shows "calls res = []
         \<or> (\<exists>r' cnt done p'. Read_fresh rd cb r' cnt done p' = Inr res
               \<and> blockSize r' = blockSize r \<and> crypted r' = 0
               \<and> (reader_inv r \<longrightarrow> reader_inv r'))"
proof (cases "0 < crypted r")
  case False
  with assms show ?thesis by (auto simp: Read_def)
next
  case True
  obtain k p1 where cp: "copy p (drop (blockSize r - crypted r) (buf r)) = (k, p1)"
    by (metis prod.exhaust)
  show ?thesis
  proof (cases "0 < crypted r - k")
    case True
    with assms \<open>0 < crypted r\<close> show ?thesis
      by (auto simp: Read_def cp Let_def split: if_splits)
  next
    case False
    let ?r' = "r\<lparr>crypted := crypted r - k, buf := []\<rparr>"
    from assms \<open>0 < crypted r\<close> False
    have "Read_fresh rd cb ?r' k (take k p1) (drop k p1) = Inr res"
      by (auto simp: Read_def cp Let_def split: if_splits)
    moreover have "reader_inv r \<longrightarrow> reader_inv ?r'"
      using False by (auto simp: reader_inv_def)
    ultimately show ?thesis using False by (intro disjI2 exI [of _ ?r']) auto
  qed
qed

lemma Read_calls_shape:
  assumes "Read rd cb r p = Inr res"
  shows "calls res = [] \<or> (\<exists>k. calls res = [SrcRead k])
         \<or> (\<exists>k m. calls res = [SrcRead k, CryptBlocks m])"
  using Read_fresh_or_pending [OF assms] Read_fresh_calls by blast

text \<open>
  C5. A single call of \<open>Read\<close>, whatever the destination length and the state of the reader,
  reads the wrapped source at most once and calls \<open>CryptBlocks\<close> at most once. On a reader
  that satisfies the state invariant the call returns (it does not panic).
\<close>

theorem Read_one_source_read_one_transform:
  "(reader_inv r \<longrightarrow> (\<exists>res. Read rd cb r p = Inr res))
   \<and> (\<forall>res. Read rd cb r p = Inr res \<longrightarrow>
         length (filter is_SrcRead (calls res)) \<le> 1
         \<and> length (filter is_CryptBlocks (calls res)) \<le> 1)"
proof (intro conjI impI allI)
  assume "reader_inv r"
  from Read_inv [OF this] show "\<exists>res. Read rd cb r p = Inr res" by blast
next
  fix res assume "Read rd cb r p = Inr res"
  from Read_calls_shape [OF this]
  show "length (filter is_SrcRead (calls res)) \<le> 1" by auto
next
  fix res assume "Read rd cb r p = Inr res"
  from Read_calls_shape [OF this]
  show "length (filter is_CryptBlocks (calls res)) \<le> 1" by auto
qed

text \<open>
  A new reader of block size 4 asked for 2 bytes: one read of the source, one transform.
\<close>

theorem Read_one_source_read_one_transform_witness:
  "reader_inv (mock_reader [([1, 2, 3, 4], None)] 4)
   \<and> Read mock_Read shift_mode (mock_reader [([1, 2, 3, 4], None)] 4) [0, 0]
     = Inr \<lparr>count = 2, err = None, dest = [101, 102],
            reader = \<lparr>src = [], blockMode = 101, blockSize = 4, buf = [101, 102, 103, 104],
                      crypted = 2, eof = False\<rparr>,
            calls = [SrcRead 4, CryptBlocks 4]\<rparr>
   \<and> length (filter is_SrcRead [SrcRead 4, CryptBlocks 4]) \<le> 1
   \<and> length (filter is_CryptBlocks [SrcRead 4, CryptBlocks 4]) \<le> 1"
proof -
  have "Read mock_Read shift_mode (mock_reader [([1, 2, 3, 4], None)] 4) [0, 0]
     = Inr \<lparr>count = 2, err = None, dest = [101, 102],
            reader = \<lparr>src = [], blockMode = 101, blockSize = 4, buf = [101, 102, 103, 104],
                      crypted = 2, eof = False\<rparr>,
            calls = [SrcRead 4, CryptBlocks 4]\<rparr>"
    by code_simp
  then show ?thesis
    using Read_one_source_read_one_transform
            [of "mock_reader [([1, 2, 3, 4], None)] 4" mock_Read shift_mode
                "[0, 0]"]
    by (simp add: reader_inv_def mock_reader_def NewBlockReader_def)
qed

lemma Read_request_positive:
  assumes "reader_inv r" "Read rd cb r p = Inr res" "SrcRead k \<in> set (calls res)"
  shows "0 < k"
proof -
  from Read_fresh_or_pending [OF assms(2)] assms(1,3)
  obtain r' cnt "done" p' where f: "Read_fresh rd cb r' cnt done p' = Inr res"
    and inv: "reader_inv r'" and c: "crypted r' = 0"
    by auto
  from inv c have "0 < blockSize r' - length (buf r')"
    by (auto simp: reader_inv_def)
  moreover have "length p' < blockSize r' \<or> 0 < length p' - length (buf r')"
    using inv c by (auto simp: reader_inv_def)
  ultimately show ?thesis
    using Read_fresh_calls [OF f] assms(3) by (auto split: if_splits)
qed

lemma Read_empty_destination:
  assumes "reader_inv r" "\<not> (eof r \<and> crypted r = 0)"
  shows "Read rd cb r [] = Inr \<lparr>count = 0, err = None, dest = [], reader = r, calls = []\<rparr>"
  using assms
  by (auto simp: Read_def Read_fresh_def copy_def Let_def reader_inv_def)

text \<open>
  C10. A reader that satisfies the state invariant never calls the source with a buffer of
  length zero. A call of \<open>Read\<close> with an empty destination, on a reader that is not at its
  recorded end (\<open>eof\<close> set and nothing pending), returns zero bytes and no error, leaves the
  reader as it was and calls neither the source nor the transform. \<open>BitPadding\<close> on an empty
  buffer is an index out of range, while \<open>ZeroPadding\<close> and \<open>PKCS7Padding\<close> leave the empty
  buffer.
\<close>

theorem Read_never_requests_zero_bytes:
  "(reader_inv r \<longrightarrow>
      (\<forall>res k. Read rd cb r p = Inr res \<and> SrcRead k \<in> set (calls res) \<longrightarrow> 0 < k))
   \<and> (reader_inv r \<and> \<not> (eof r \<and> crypted r = 0) \<longrightarrow>
        Read rd cb r [] = Inr \<lparr>count = 0, err = None, dest = [], reader = r, calls = []\<rparr>)
   \<and> BitPadding [] = Inl IndexOutOfRange
   \<and> ZeroPadding [] = Inr []
   \<and> PKCS7Padding [] = Inr []"
  using Read_request_positive [of r rd cb p] Read_empty_destination [of r rd cb]
  by (auto simp: ZeroPadding_def PKCS7Padding_def fill_def)

text \<open>
  A new reader of block size 4: a call for 2 bytes asks the source for 4, and a call with
  an empty destination does nothing.
\<close>

theorem Read_never_requests_zero_bytes_witness:
  "reader_inv (mock_reader [([1, 2, 3, 4], None)] 4)
   \<and> Read mock_Read shift_mode (mock_reader [([1, 2, 3, 4], None)] 4) [0, 0]
     = Inr \<lparr>count = 2, err = None, dest = [101, 102],
            reader = \<lparr>src = [], blockMode = 101, blockSize = 4, buf = [101, 102, 103, 104],
                      crypted = 2, eof = False\<rparr>,
            calls = [SrcRead 4, CryptBlocks 4]\<rparr>
   \<and> SrcRead 4 \<in> set [SrcRead 4, CryptBlocks 4] \<and> (0 :: nat) < 4
   \<and> Read mock_Read shift_mode (mock_reader [([1, 2, 3, 4], None)] 4) []
     = Inr \<lparr>count = 0, err = None, dest = [],
            reader = mock_reader [([1, 2, 3, 4], None)] 4, calls = []\<rparr>"
proof -
  have "Read mock_Read shift_mode (mock_reader [([1, 2, 3, 4], None)] 4) [0, 0]
     = Inr \<lparr>count = 2, err = None, dest = [101, 102],
            reader = \<lparr>src = [], blockMode = 101, blockSize = 4, buf = [101, 102, 103, 104],
                      crypted = 2, eof = False\<rparr>,
            calls = [SrcRead 4, CryptBlocks 4]\<rparr>"
    by code_simp
  moreover have "reader_inv (mock_reader [([1, 2, 3, 4], None)] 4)"
    by (simp add: reader_inv_def mock_reader_def NewBlockReader_def)
  moreover have "\<not> (eof (mock_reader [([1, 2, 3, 4], None)] 4)
                    \<and> crypted (mock_reader [([1, 2, 3, 4], None)] 4) = 0)"
    by (simp add: mock_reader_def NewBlockReader_def)
  ultimately show ?thesis
    using Read_never_requests_zero_bytes
            [of "mock_reader [([1, 2, 3, 4], None)] 4" mock_Read shift_mode
                "[0, 0]"]
    by simp
qed

lemma Read_small_EOF:
  assumes "0 < blockSize r" "length (buf r) < blockSize r" "crypted r = 0"
    and "length p < blockSize r"
    and "src_Read rd (src r) (blockSize r - length (buf r)) = ((data, Some EOF), u')"
  shows "\<exists>res. Read_small rd cb r cnt done p = Inr res
          \<and> err res = (if length (buf r) + length data = blockSize r then None
                         else if 0 < length (buf r) + length data then Some ErrUnexpectedEOF
                         else Some EOF)
          \<and> count res = cnt + (if length (buf r) + length data = blockSize r then length p else 0)
          \<and> length (buf (reader res)) = length (buf r) + length data
          \<and> crypted (reader res)
              = (if length (buf r) + length data = blockSize r then blockSize r - length p else 0)
          \<and> (length (buf r) + length data = blockSize r \<longrightarrow> eof (reader res))"
proof (cases "length (buf r) + length data = blockSize r")
  case True
  obtain blk c' where cr: "CryptBlocks_inplace cb (blockMode r) (buf r @ data) = (blk, c')"
    by (metis prod.exhaust)
  have lb: "length blk = blockSize r"
    using CryptBlocks_inplace_length [OF cr] True by simp
  obtain k p' where cp: "copy p blk = (k, p')"
    by (metis prod.exhaust)
  have k: "k = length p"
    using copy_fst [OF cp] lb assms(4) by simp
  show ?thesis
    using assms True lb k by (simp add: Read_small_def Let_def cr cp)
next
  case False
  then show ?thesis
    using assms by (auto simp: Read_small_def Let_def)
qed

lemma Read_large_EOF:
  assumes "0 < blockSize r" "length (buf r) < blockSize r" "blockSize r \<le> length p"
    and "src_Read rd (src r) (length p - length (buf r)) = ((data, Some EOF), u')"
  shows "\<exists>res. Read_large rd cb r cnt done p = Inr res
          \<and> err res = (if (length (buf r) + length data) mod blockSize r \<noteq> 0
                         then Some ErrUnexpectedEOF else Some EOF)
          \<and> count res = cnt + (length (buf r) + length data
                                 - (length (buf r) + length data) mod blockSize r)
          \<and> length (buf (reader res)) = (length (buf r) + length data) mod blockSize r
          \<and> crypted (reader res) = crypted r"
proof -
  note sr = assms(4)
  note len = src_Read_length [OF sr]
  define av where "av = length (buf r) + length data"
  have avp: "av \<le> length p" using len assms by (simp add: av_def)
  have md: "av mod blockSize r < blockSize r" using assms by simp
  show ?thesis
  proof (cases "av - av mod blockSize r > 0")
    case True
    obtain k pa where cp: "copy (take (length (buf r)) p @ data @ drop av p) (buf r) = (k, pa)"
      by (metis prod.exhaust)
    have lpa: "length pa = length p"
      using copy_length [OF cp] avp by (simp add: av_def)
    obtain blk c' where cr:
      "CryptBlocks_inplace cb (blockMode r) (take (av - av mod blockSize r) pa) = (blk, c')"
      by (metis prod.exhaust)
    have lblk: "length blk = av - av mod blockSize r"
      using CryptBlocks_inplace_length [OF cr] lpa avp by simp
    show ?thesis
      using assms(1-3) True md avp lpa lblk
      by (simp add: Read_large_def sr Let_def av_def [symmetric] cp cr)
  next
    case False
    then have "av mod blockSize r = av"
      by (metis mod_less_eq_dividend le_antisym diff_is_0_eq not_gr_zero)
    then have eq: "(length (buf r) + length data) mod blockSize r = length (buf r) + length data"
      by (simp add: av_def)
    have "length (buf r) + length data < blockSize r"
      using md eq by (simp add: av_def)
    then show ?thesis
      using assms(1-3) avp
      by (simp add: Read_large_def sr Let_def eq av_def)
  qed
qed

lemma Read_fresh_EOF:
  assumes "0 < blockSize r" "length (buf r) < blockSize r" "crypted r = 0" "\<not> eof r" "p \<noteq> []"
    and "src_Read rd (src r)
           (if length p < blockSize r then blockSize r - length (buf r)
            else length p - length (buf r)) = ((data, Some EOF), u')"
  shows "\<exists>res. Read_fresh rd cb r cnt done p = Inr res
          \<and> err res = (if (length (buf r) + length data) mod blockSize r \<noteq> 0
                         then Some ErrUnexpectedEOF
                         else if 0 < length (buf r) + length data \<and> length p < blockSize r
                         then None else Some EOF)
          \<and> count res = cnt + (if length p < blockSize r
                                 then (if length (buf r) + length data = blockSize r
                                       then length p else 0)
                                 else length (buf r) + length data
                                        - (length (buf r) + length data) mod blockSize r)
          \<and> length (buf (reader res))
              = (if length p < blockSize r then length (buf r) + length data
                 else (length (buf r) + length data) mod blockSize r)
          \<and> crypted (reader res)
              = (if length p < blockSize r \<and> length (buf r) + length data = blockSize r
                 then blockSize r - length p else 0)
          \<and> (length p < blockSize r \<and> length (buf r) + length data = blockSize r
                \<longrightarrow> eof (reader res))"
proof (cases "length p < blockSize r")
  case True
  with assms(6) have sr: "src_Read rd (src r) (blockSize r - length (buf r)) = ((data, Some EOF), u')"
    by simp
  have le: "length (buf r) + length data \<le> blockSize r"
    using src_Read_length [OF sr] assms(2) by simp
  have m: "(length (buf r) + length data) mod blockSize r \<noteq> 0
             \<longleftrightarrow> 0 < length (buf r) + length data \<and> length (buf r) + length data \<noteq> blockSize r"
    using le assms(1) by (cases "length (buf r) + length data = blockSize r") auto
  from Read_small_EOF [OF assms(1-3) True sr, of cb cnt "done"] True assms(4,5) m
  show ?thesis
    by (auto simp: Read_fresh_def)
next
  case False
  with assms(6) have sr: "src_Read rd (src r) (length p - length (buf r)) = ((data, Some EOF), u')"
    by simp
  from False have "blockSize r \<le> length p" by simp
  from Read_large_EOF [OF assms(1,2) this sr, of cb cnt "done"] False assms(3,4,5)
  show ?thesis
    by (auto simp: Read_fresh_def)
qed

text \<open>
  C6. The reader of \<open>reader.go\<close> has no padding. Take a call that reaches the source (what
  was pending fits in the destination with room to spare) and is answered \<open>io.EOF\<close>, with or
  without bytes; \<open>held\<close> are the bytes buffered at that moment. The status is then fixed:
  \<^item> if the bytes held and added end in the middle of a block, the call reports
    \<open>io.ErrUnexpectedEOF\<close> and leaves that partial block buffered;
  \<^item> if they make exactly the one block that a destination shorter than a block asked for,
    the call reports no error, records the end and keeps the rest of the block pending;
  \<^item> otherwise, the end falling on a block boundary, the call reports \<open>io.EOF\<close>, and
    nothing is buffered or pending afterwards.
  The count is the pending bytes delivered plus the whole blocks transformed into the
  destination: with nothing held and nothing added, \<open>io.EOF\<close> comes with no byte beyond the
  pending ones (none when nothing was pending). \<open>io.ErrUnexpectedEOF\<close> is an error other than
  \<open>io.EOF\<close> and than any error of the source named by a message.
\<close>

theorem Read_end_of_stream_status:
  assumes "reader_inv r" and "\<not> eof r" and "crypted r < length p"
    and "held = (if 0 < crypted r then [] else buf r)"
    and "req = (if length p - crypted r < blockSize r then blockSize r - length held
                else length p - crypted r - length held)"
    and "src_Read rd (src r) req = ((data, Some EOF), u')"
  shows "(\<exists>res. Read rd cb r p = Inr res
          \<and> err res = (if (length held + length data) mod blockSize r \<noteq> 0
                         then Some ErrUnexpectedEOF
                         else if 0 < length held + length data
                                 \<and> length p - crypted r < blockSize r
                         then None else Some EOF)
          \<and> count res = crypted r
                + (if length p - crypted r < blockSize r
                   then (if length held + length data = blockSize r
                         then length p - crypted r else 0)
                   else length held + length data
                          - (length held + length data) mod blockSize r)
          \<and> (err res = Some EOF \<longrightarrow> buf (reader res) = [] \<and> crypted (reader res) = 0)
          \<and> (err res = Some ErrUnexpectedEOF \<longrightarrow>
                buf (reader res) \<noteq> [] \<and> length (buf (reader res)) < blockSize r
                \<and> crypted (reader res) = 0)
          \<and> (err res = None \<longrightarrow> eof (reader res) \<and> 0 < crypted (reader res))
          \<and> (held = [] \<and> data = [] \<longrightarrow> count res = crypted r \<and> err res = Some EOF)
          \<and> ((length held + length data) mod blockSize r \<noteq> 0
                \<longrightarrow> err res = Some ErrUnexpectedEOF))
       \<and> ErrUnexpectedEOF \<noteq> EOF \<and> ErrUnexpectedEOF \<noteq> Err msg"
proof -
  define r1 where "r1 = (if 0 < crypted r then r\<lparr>crypted := 0, buf := []\<rparr> else r)"
  define k where "k = crypted r"
  obtain c p1 where cp: "copy p (drop (blockSize r - crypted r) (buf r)) = (c, p1)"
    by (metis prod.exhaust)
  define dn where "dn = (if 0 < crypted r then take k p1 else [])"
  define p' where "p' = (if 0 < crypted r then drop k p1 else p)"
  have bs: "0 < blockSize r" using assms(1) by (simp add: reader_inv_def)
  have hb: "buf r1 = held" "blockSize r1 = blockSize r" "crypted r1 = 0" "\<not> eof r1"
           "src r1 = src r"
    using assms(2,4) by (auto simp: r1_def)
  have hl: "length held < blockSize r"
    using assms(1,4) by (auto simp: reader_inv_def)
  have lp: "length p' = length p - crypted r"
    using copy_length [OF cp] by (auto simp: p'_def k_def)
  have c: "0 < crypted r \<Longrightarrow> c = crypted r"
    using copy_fst [OF cp] assms(1,3) by (auto simp: reader_inv_def)
  have rd: "Read rd cb r p = Read_fresh rd cb r1 k dn p'"
  proof (cases "0 < crypted r")
    case True
    with c assms(1) show ?thesis
      by (auto simp: Read_def cp r1_def k_def dn_def p'_def reader_inv_def Let_def)
  next
    case False
    then show ?thesis
      by (simp add: Read_def r1_def k_def dn_def p'_def)
  qed
  have sr: "src_Read rd (src r1)
              (if length p' < blockSize r1 then blockSize r1 - length (buf r1)
               else length p' - length (buf r1)) = ((data, Some EOF), u')"
    using assms(5,6) by (auto simp: hb lp split: if_splits)
  have ne: "p' \<noteq> []" using lp assms(3) by auto
  have "0 < blockSize r1" "length (buf r1) < blockSize r1"
    using bs hl by (simp_all add: hb)
  from Read_fresh_EOF [of r1 p' rd data u' cb k dn, OF this hb(3) hb(4) ne sr, unfolded hb(1,2)]
  obtain res where res: "Read_fresh rd cb r1 k dn p' = Inr res"
    and e: "err res = (if (length held + length data) mod blockSize r \<noteq> 0
                         then Some ErrUnexpectedEOF
                         else if 0 < length held + length data \<and> length p' < blockSize r
                         then None else Some EOF)"
    and n: "count res = k + (if length p' < blockSize r
                                 then (if length held + length data = blockSize r
                                       then length p' else 0)
                                 else length held + length data
                                        - (length held + length data) mod blockSize r)"
    and lb: "length (buf (reader res))
              = (if length p' < blockSize r then length held + length data
                 else (length held + length data) mod blockSize r)"
    and cr: "crypted (reader res)
              = (if length p' < blockSize r \<and> length held + length data = blockSize r
                 then blockSize r - length p' else 0)"
    and ef: "length p' < blockSize r \<and> length held + length data = blockSize r
                \<longrightarrow> eof (reader res)"
    by blast
  have small: "length p' < blockSize r \<Longrightarrow> length held + length data \<le> blockSize r"
    using src_Read_length [OF sr] hl by (simp add: hb split: if_splits)
  have md: "(length held + length data) mod blockSize r < blockSize r" using bs by simp
  have "err res = Some EOF \<longrightarrow> buf (reader res) = [] \<and> crypted (reader res) = 0"
    using e lb cr by (auto split: if_splits)
  moreover have "err res = Some ErrUnexpectedEOF \<longrightarrow>
                buf (reader res) \<noteq> [] \<and> length (buf (reader res)) < blockSize r
                \<and> crypted (reader res) = 0"
  proof
    assume "err res = Some ErrUnexpectedEOF"
    with e have m: "(length held + length data) mod blockSize r \<noteq> 0"
      by (auto split: if_splits)
    then have ne': "length held + length data \<noteq> blockSize r" "0 < length held + length data"
      using bs by (auto intro: Nat.gr0I)
    show "buf (reader res) \<noteq> [] \<and> length (buf (reader res)) < blockSize r
                \<and> crypted (reader res) = 0"
    proof (cases "length p' < blockSize r")
      case True
      with small ne' have "length held + length data < blockSize r" by simp
      with True lb cr ne' show ?thesis by auto
    next
      case False
      with lb cr m md show ?thesis by auto
    qed
  qed
  moreover have "err res = None \<longrightarrow> eof (reader res) \<and> 0 < crypted (reader res)"
  proof
    assume "err res = None"
    with e have h: "(length held + length data) mod blockSize r = 0"
       "0 < length held + length data" "length p' < blockSize r"
      by (auto split: if_splits)
    with small have "length held + length data = blockSize r"
      using bs by (metis le_neq_implies_less mod_less neq0_conv)
    with h ef cr show "eof (reader res) \<and> 0 < crypted (reader res)" by auto
  qed
  moreover have "held = [] \<and> data = [] \<longrightarrow> count res = crypted r \<and> err res = Some EOF"
    using e n bs by (auto simp: k_def)
  moreover have "(length held + length data) mod blockSize r \<noteq> 0
                \<longrightarrow> err res = Some ErrUnexpectedEOF"
    using e by simp
  ultimately show ?thesis
    using rd res e n by (simp add: lp k_def)
qed

text \<open>
  A new reader of block size 4: the source at its end with nothing; at its end after two
  bytes; at its end with one whole block, read into six bytes (as \<open>LargeBufEOFWithData\<close>);
  and the same block read into three bytes (as \<open>SmallBufEOFWithData\<close>).
\<close>

theorem Read_end_of_stream_status_witness:
  "reader_inv (mock_reader [([], Some EOF)] 4)
   \<and> src_Read mock_Read [([], Some EOF)] 4 = (([], Some EOF), [])
   \<and> (\<exists>res. Read mock_Read shift_mode (mock_reader [([], Some EOF)] 4) [0, 0, 0, 0] = Inr res
          \<and> count res = 0 \<and> err res = Some EOF)
   \<and> reader_inv (mock_reader [([1, 2], Some EOF)] 4)
   \<and> src_Read mock_Read [([1, 2], Some EOF)] 4 = (([1, 2], Some EOF), [])
   \<and> (\<exists>res. Read mock_Read shift_mode (mock_reader [([1, 2], Some EOF)] 4) [0, 0] = Inr res
          \<and> count res = 0 \<and> err res = Some ErrUnexpectedEOF \<and> buf (reader res) \<noteq> [])
   \<and> reader_inv (mock_reader [([1, 2, 3, 4], Some EOF)] 4)
   \<and> src_Read mock_Read [([1, 2, 3, 4], Some EOF)] 6 = (([1, 2, 3, 4], Some EOF), [])
   \<and> (\<exists>res. Read mock_Read shift_mode (mock_reader [([1, 2, 3, 4], Some EOF)] 4)
               [0, 0, 0, 0, 0, 0] = Inr res
          \<and> count res = 4 \<and> err res = Some EOF \<and> buf (reader res) = [])
   \<and> src_Read mock_Read [([1, 2, 3, 4], Some EOF)] 4 = (([1, 2, 3, 4], Some EOF), [])
   \<and> (\<exists>res. Read mock_Read shift_mode (mock_reader [([1, 2, 3, 4], Some EOF)] 4)
               [0, 0, 0] = Inr res
          \<and> count res = 3 \<and> err res = None \<and> eof (reader res))"
proof -
  have a: "src_Read mock_Read [([], Some EOF)] 4 = (([], Some EOF), [])"
    by (simp add: src_Read_def)
  have b: "src_Read mock_Read [([1, 2], Some EOF)] 4 = (([1, 2], Some EOF), [])"
    by (simp add: src_Read_def)
  have c: "src_Read mock_Read [([1, 2, 3, 4], Some EOF)] 6 = (([1, 2, 3, 4], Some EOF), [])"
    by (simp add: src_Read_def)
  have d: "src_Read mock_Read [([1, 2, 3, 4], Some EOF)] 4 = (([1, 2, 3, 4], Some EOF), [])"
    by (simp add: src_Read_def)
  have i: "reader_inv (mock_reader [([], Some EOF)] 4)"
          "reader_inv (mock_reader [([1, 2], Some EOF)] 4)"
          "reader_inv (mock_reader [([1, 2, 3, 4], Some EOF)] 4)"
    by (simp_all add: reader_inv_def mock_reader_def NewBlockReader_def)
  show ?thesis
    using Read_end_of_stream_status
            [where r = "mock_reader [([], Some EOF)] 4" and p = "[0, 0, 0, 0]"
               and held = "[]" and req = 4 and data = "[]" and u' = "[]"
               and rd = mock_Read and cb = shift_mode]
          Read_end_of_stream_status
            [where r = "mock_reader [([1, 2], Some EOF)] 4" and p = "[0, 0]"
               and held = "[]" and req = 4 and data = "[1, 2]" and u' = "[]"
               and rd = mock_Read and cb = shift_mode]
          Read_end_of_stream_status
            [where r = "mock_reader [([1, 2, 3, 4], Some EOF)] 4" and p = "[0, 0, 0, 0, 0, 0]"
               and held = "[]" and req = 6 and data = "[1, 2, 3, 4]" and u' = "[]"
               and rd = mock_Read and cb = shift_mode]
          Read_end_of_stream_status
            [where r = "mock_reader [([1, 2, 3, 4], Some EOF)] 4" and p = "[0, 0, 0]"
               and held = "[]" and req = 4 and data = "[1, 2, 3, 4]" and u' = "[]"
               and rd = mock_Read and cb = shift_mode]
          i a b c d
    by (auto simp: mock_reader_def NewBlockReader_def)
qed

section \<open>The reader after a terminal status or an error\<close>

text \<open>
  Where \<open>Read\<close> itself has recorded the end of the stream (\<open>eof\<close>, set when the last block
  was still being delivered), it answers \<open>io.EOF\<close> from then on and leaves the source alone.
\<close>

lemma Read_eof_flag_sticky:
  assumes "eof r" "crypted r = 0"
  shows "Read rd cb r p = Inr \<lparr>count = 0, err = Some EOF, dest = p, reader = r, calls = []\<rparr>"
  using assms by (simp add: Read_def Read_fresh_def)

text \<open>
  C1 does not hold of \<open>reader.go\<close>. First run: a new reader, block size 16, is asked for 16
  bytes and the source answers \<open>(0, io.EOF)\<close>; \<open>Read\<close> returns \<open>(0, io.EOF)\<close>. A second
  \<open>Read\<close> of 16 bytes calls the source again, and returns the 16 bytes it is given with no
  error. Second run (the steps of \<open>SmallBufUnexpectedEOF\<close>, and one more): after
  \<open>io.ErrUnexpectedEOF\<close> the next \<open>Read\<close> calls the source for the 6 bytes missing and
  returns 3 bytes with no error.
\<close>

theorem Read_after_terminal_status_reads_again:
  "Read_steps mock_Read shift_mode
     (mock_reader
        [([], Some EOF), ([1, 2, 3, 4, 5, 6, 7, 8, 9, 10, 11, 12, 13, 14, 15, 16], None)]
        16)
     [16, 16]
   = [Inr (0, Some EOF, [], [SrcRead 16]),
      Inr (16, None,
           [101, 102, 103, 104, 105, 106, 107, 108, 109, 110, 111, 112, 113, 114, 115, 116],
           [SrcRead 16, CryptBlocks 16])]
   \<and> Read_steps mock_Read shift_mode
     (mock_reader
        [([1, 2, 3, 4, 5], None), ([6, 7, 8, 9, 10], Some EOF),
         ([11, 12, 13, 14, 15, 16], None)]
        16)
     [3, 3, 3]
   = [Inr (0, None, [], [SrcRead 16]),
      Inr (0, Some ErrUnexpectedEOF, [], [SrcRead 11]),
      Inr (3, None, [101, 102, 103], [SrcRead 6, CryptBlocks 16])]"
  by code_simp

text \<open>
  C2 does not hold of \<open>reader.go\<close>. The steps of the test case \<open>SmallBufErrWithData\<close>: the
  source completes the first block and returns an error with it. \<open>Read\<close> returns 3 bytes
  and that error; the next \<open>Read\<close> delivers the 13 pending bytes with no error, where the
  claim (and the test) have the error again.
\<close>

theorem Read_error_is_not_repeated:
  "Read_steps mock_Read shift_mode
     (mock_reader
        [([1, 2, 3, 4, 5], None), ([6, 7, 8, 9, 10, 11, 12, 13, 14, 15, 16], Some testErr)]
        16)
     [3, 3, 13]
   = [Inr (0, None, [], [SrcRead 16]),
      Inr (3, Some testErr, [101, 102, 103], [SrcRead 11, CryptBlocks 16]),
      Inr (13, None, [104, 105, 106, 107, 108, 109, 110, 111, 112, 113, 114, 115, 116], [])]"
  by code_simp

section \<open>Properties of the writer\<close>

lemma push_batches_source:
  "push_batches push cb bs (s, c, source, acc, ev) = ((s', c', source', acc', ev'), e)
     \<Longrightarrow> source' = source"
proof (induction bs arbitrary: s c acc ev)
  case Nil
  then show ?case by simp
next
  case (Cons b bs)
  then show ?case
    by (auto simp: Let_def split: prod.splits if_splits)
qed

text \<open>
  C9. For every writer and every source region, of any length, the source region after
  \<open>write\<close> is the source region before it.
\<close>

theorem Write_keeps_source: "source_after (Write push cb w source) = source"
proof (cases "fault w")
  case (Some e)
  then show ?thesis by (simp add: Write_def)
next
  case None
  then show ?thesis
    by (auto simp: Write_def Let_def split: prod.splits option.splits
             dest: push_batches_source)
qed

lemma Write_faulted:
  "fault w = Some e \<Longrightarrow>
     Write push cb w source
       = \<lparr>w_count = 0, w_err = Some e, source_after = source, writer = w, w_calls = []\<rparr>"
  by (simp add: Write_def)

lemma Close_faulted:
  "fault w = Some e \<Longrightarrow> Close push cb w = Inr \<lparr>c_err = Some e, c_writer = w, c_calls = []\<rparr>"
  by (simp add: Close_def)

lemma Write_error_is_fault:
  "w_err (Write push cb w source) = Some e \<Longrightarrow> fault (writer (Write push cb w source)) = Some e"
  by (cases "fault w") (auto simp: Write_def Let_def split: prod.splits option.splits)

lemma Close_error_is_fault:
  "Close push cb w = Inr res \<Longrightarrow> c_err res = Some e \<Longrightarrow> fault (c_writer res) = Some e"
  by (cases "fault w")
     (auto simp: Close_def Let_def split: prod.splits option.splits if_splits sum.splits)

text \<open>
  C3. A writer whose fault slot holds an error answers every \<open>write\<close> and every \<open>finalize\<close>
  with that same error at once: nothing is consumed or buffered, the writer is unchanged, and
  neither the transform nor the sink is called, whatever the source. And every error that
  \<open>write\<close> or \<open>finalize\<close> returns (a failed or short push, or \<open>truncated-stream\<close>) is in the
  fault slot afterwards, so that the first error stays.
\<close>

theorem writer_sticky_fault:
  "(fault w = Some e \<longrightarrow>
      Write push cb w source
        = \<lparr>w_count = 0, w_err = Some e, source_after = source, writer = w, w_calls = []\<rparr>
      \<and> Close push cb w = Inr \<lparr>c_err = Some e, c_writer = w, c_calls = []\<rparr>)
   \<and> (w_err (Write push cb w source) = Some e
        \<longrightarrow> fault (writer (Write push cb w source)) = Some e)
   \<and> (\<forall>res. Close push cb w = Inr res \<and> c_err res = Some e \<longrightarrow> fault (c_writer res) = Some e)"
  using Write_faulted [of w e push cb source] Close_faulted [of w e push cb]
        Write_error_is_fault [of push cb w source e] Close_error_is_fault [of push cb w _ e]
  by blast

text \<open>
  A faulted writer with three bytes buffered, and the test case \<open>WriteErr\<close>: twenty bytes
  written, the sink accepts twelve of sixteen and fails.
\<close>

theorem writer_sticky_fault_witness:
  "Write mock_Write shift_mode
      \<lparr>sink = [(16, None)], w_blockMode = 100, w_blockSize = 16, padding = None,
       buffered = [1, 2, 3], closed = False, fault = Some testErr\<rparr>
      (replicate 20 7)
     = \<lparr>w_count = 0, w_err = Some testErr, source_after = replicate 20 7,
        writer = \<lparr>sink = [(16, None)], w_blockMode = 100, w_blockSize = 16, padding = None,
                  buffered = [1, 2, 3], closed = False, fault = Some testErr\<rparr>,
        w_calls = []\<rparr>
   \<and> Close mock_Write shift_mode
      \<lparr>sink = [(16, None)], w_blockMode = 100, w_blockSize = 16, padding = None,
       buffered = [1, 2, 3], closed = False, fault = Some testErr\<rparr>
     = Inr \<lparr>c_err = Some testErr,
            c_writer = \<lparr>sink = [(16, None)], w_blockMode = 100, w_blockSize = 16,
                        padding = None, buffered = [1, 2, 3], closed = False,
                        fault = Some testErr\<rparr>,
            c_calls = []\<rparr>
   \<and> w_err (Write mock_Write shift_mode (mock_writer [(12, Some testErr)] 16 None)
              (replicate 20 7)) = Some testErr
   \<and> fault (writer (Write mock_Write shift_mode (mock_writer [(12, Some testErr)] 16 None)
                      (replicate 20 7))) = Some testErr"
proof -
  have "w_err (Write mock_Write shift_mode (mock_writer [(12, Some testErr)] 16 None)
                (replicate 20 7)) = Some testErr"
    by code_simp
  then show ?thesis
    using writer_sticky_fault
            [of "\<lparr>sink = [(16, None)], w_blockMode = 100, w_blockSize = 16, padding = None,
                  buffered = [1, 2, 3], closed = False, fault = Some testErr\<rparr>"
                testErr mock_Write shift_mode "replicate 20 7"]
          writer_sticky_fault
            [of "mock_writer [(12, Some testErr)] 16 None" testErr mock_Write shift_mode
                "replicate 20 7"]
    by simp
qed

text \<open>
  A \<open>write\<close> that succeeds leaves less than a block buffered (the writer invariant of
  section 3 of the specification).
\<close>

lemma Write_buffered_less_than_block:
  assumes "0 < w_blockSize w" and "w_err (Write push cb w source) = None"
  shows "length (buffered (writer (Write push cb w source))) < w_blockSize w"
proof -
  have "length (drop (length xs div b * b) xs) < b" if "0 < b" for xs :: "byte list" and b
    using that by (simp add: minus_div_mult_eq_mod)
  from this [of "w_blockSize w" "buffered w @ source"] assms show ?thesis
    by (cases "fault w") (auto simp: Write_def Let_def split: prod.splits option.splits)
qed

lemma Fill_inplace_length: "Fill_inplace f tail = Inr t \<Longrightarrow> length t = length tail"
  by (auto simp: Fill_inplace_def split: sum.splits)

lemma Close_padded:
  assumes "fault w = None" "\<not> closed w" "buffered w \<noteq> []"
    and "length (buffered w) < w_blockSize w" "padding w = Some f"
    and "Fill_inplace f (replicate (w_blockSize w - length (buffered w)) 0) = Inr tail"
    and "CryptBlocks_inplace cb (w_blockMode w) (buffered w @ tail) = (blk, c')"
    and "dst_Write push (sink w) blk = ((n, e), s')"
  shows "\<exists>res. Close push cb w = Inr res
           \<and> c_calls res = [Fill (w_blockSize w - length (buffered w)),
                            CryptBlocks (w_blockSize w), DstWrite (w_blockSize w)]
           \<and> c_err res = (if e \<noteq> None then e
                          else if n < w_blockSize w then Some ErrShortWrite else None)
           \<and> fault (c_writer res) = c_err res
           \<and> (c_err res = None \<longrightarrow> closed (c_writer res) \<and> buffered (c_writer res) = [])"
proof -
  have lt: "length tail = w_blockSize w - length (buffered w)"
    using Fill_inplace_length [OF assms(6)] by simp
  have lb: "length blk = w_blockSize w"
    using CryptBlocks_inplace_length [OF assms(7)] lt assms(4) by simp
  show ?thesis
    using assms lt lb by (auto simp: Close_def Let_def)
qed

text \<open>
  C4 as stated fails where the push of the padded block fails: the test case \<open>PaddingErr\<close>
  (three bytes written, then \<open>Close\<close>; the sink accepts twelve of the sixteen bytes and
  returns an error). \<open>Close\<close> has filled, transformed and pushed once, and does not succeed.
\<close>

theorem Close_with_padding_can_fail:
  "Write_steps mock_Write shift_mode
     (mock_writer [(12, Some testErr)] 16 (Some ZeroPadding))
     [writeAction [1, 2, 3], closeAction]
   = [Inr (3, None, []), Inr (0, Some testErr, [Fill 13, CryptBlocks 16, DstWrite 16])]"
  by code_simp

text \<open>
  C4, as amended. For a writer without a fault: \<open>finalize\<close> after a successful \<open>finalize\<close>
  succeeds and calls nothing; \<open>finalize\<close> with nothing buffered succeeds and calls nothing;
  every successful \<open>finalize\<close> leaves the writer closed and without a fault; \<open>finalize\<close> with
  bytes buffered and no padding returns \<open>truncated-stream\<close> and stores it as the fault; and
  \<open>finalize\<close> with bytes buffered (less than a block) and a padding that fills the tail
  calls \<open>Fill\<close> on the unused tail, \<open>CryptBlocks\<close> on the whole block and the sink once with the
  block, and it succeeds exactly when the sink accepts the whole block without an error;
  otherwise the error of the push (or the short write) is returned and becomes the fault.
\<close>

theorem Close_cases:
  assumes "fault w = None"
  shows "(closed w \<longrightarrow> Close push cb w = Inr \<lparr>c_err = None, c_writer = w, c_calls = []\<rparr>)
     \<and> (\<not> closed w \<and> buffered w = [] \<longrightarrow>
          Close push cb w = Inr \<lparr>c_err = None, c_writer = w\<lparr>closed := True\<rparr>, c_calls = []\<rparr>)
     \<and> (\<forall>res. Close push cb w = Inr res \<and> c_err res = None \<longrightarrow>
          closed (c_writer res) \<and> fault (c_writer res) = None)
     \<and> (\<not> closed w \<and> buffered w \<noteq> [] \<and> padding w = None \<longrightarrow>
          Close push cb w
            = Inr \<lparr>c_err = Some ErrUnexpectedEOF,
                   c_writer = w\<lparr>fault := Some ErrUnexpectedEOF\<rparr>, c_calls = []\<rparr>)
     \<and> (\<not> closed w \<and> buffered w \<noteq> [] \<and> length (buffered w) < w_blockSize w
          \<and> padding w = Some f
          \<and> Fill_inplace f (replicate (w_blockSize w - length (buffered w)) 0) = Inr tail
          \<and> CryptBlocks_inplace cb (w_blockMode w) (buffered w @ tail) = (blk, c')
          \<and> dst_Write push (sink w) blk = ((n, e), s') \<longrightarrow>
          (\<exists>res. Close push cb w = Inr res
             \<and> c_calls res = [Fill (w_blockSize w - length (buffered w)),
                              CryptBlocks (w_blockSize w), DstWrite (w_blockSize w)]
             \<and> c_err res = (if e \<noteq> None then e
                            else if n < w_blockSize w then Some ErrShortWrite else None)
             \<and> fault (c_writer res) = c_err res
             \<and> (c_err res = None \<longrightarrow> closed (c_writer res) \<and> buffered (c_writer res) = [])))"
proof (intro conjI impI allI)
  fix res assume "Close push cb w = Inr res \<and> c_err res = None"
  then show "closed (c_writer res)" "fault (c_writer res) = None"
    using assms
    by (auto simp: Close_def Let_def split: prod.splits option.splits if_splits sum.splits)
next
  assume "\<not> closed w \<and> buffered w \<noteq> [] \<and> length (buffered w) < w_blockSize w
          \<and> padding w = Some f
          \<and> Fill_inplace f (replicate (w_blockSize w - length (buffered w)) 0) = Inr tail
          \<and> CryptBlocks_inplace cb (w_blockMode w) (buffered w @ tail) = (blk, c')
          \<and> dst_Write push (sink w) blk = ((n, e), s')"
  with assms Close_padded [of w f tail cb blk c' push n e s']
  show "\<exists>res. Close push cb w = Inr res
             \<and> c_calls res = [Fill (w_blockSize w - length (buffered w)),
                              CryptBlocks (w_blockSize w), DstWrite (w_blockSize w)]
             \<and> c_err res = (if e \<noteq> None then e
                            else if n < w_blockSize w then Some ErrShortWrite else None)
             \<and> fault (c_writer res) = c_err res
             \<and> (c_err res = None \<longrightarrow> closed (c_writer res) \<and> buffered (c_writer res) = [])"
    by blast
qed (use assms in \<open>auto simp: Close_def\<close>)

text \<open>
  The four cases at a block size of four: a closed writer, an empty one, three bytes
  without a padding, and three bytes with bit padding and a sink that accepts the block.
\<close>

theorem Close_cases_witness:
  "Close mock_Write shift_mode
      \<lparr>sink = [(4, None)], w_blockMode = 100, w_blockSize = 4, padding = None,
       buffered = [], closed = True, fault = None\<rparr>
     = Inr \<lparr>c_err = None,
            c_writer = \<lparr>sink = [(4, None)], w_blockMode = 100, w_blockSize = 4, padding = None,
                        buffered = [], closed = True, fault = None\<rparr>,
            c_calls = []\<rparr>
   \<and> Close mock_Write shift_mode
      \<lparr>sink = [(4, None)], w_blockMode = 100, w_blockSize = 4, padding = None,
       buffered = [], closed = False, fault = None\<rparr>
     = Inr \<lparr>c_err = None,
            c_writer = \<lparr>sink = [(4, None)], w_blockMode = 100, w_blockSize = 4, padding = None,
                        buffered = [], closed = True, fault = None\<rparr>,
            c_calls = []\<rparr>
   \<and> Close mock_Write shift_mode
      \<lparr>sink = [(4, None)], w_blockMode = 100, w_blockSize = 4, padding = None,
       buffered = [1, 2, 3], closed = False, fault = None\<rparr>
     = Inr \<lparr>c_err = Some ErrUnexpectedEOF,
            c_writer = \<lparr>sink = [(4, None)], w_blockMode = 100, w_blockSize = 4, padding = None,
                        buffered = [1, 2, 3], closed = False, fault = Some ErrUnexpectedEOF\<rparr>,
            c_calls = []\<rparr>
   \<and> (\<exists>res. Close mock_Write shift_mode
               \<lparr>sink = [(4, None)], w_blockMode = 100, w_blockSize = 4,
                padding = Some BitPadding, buffered = [1, 2, 3], closed = False,
                fault = None\<rparr> = Inr res
          \<and> c_calls res = [Fill 1, CryptBlocks 4, DstWrite 4]
          \<and> c_err res = None \<and> fault (c_writer res) = None
          \<and> closed (c_writer res) \<and> buffered (c_writer res) = [])"
proof -
  have f: "Fill_inplace BitPadding (replicate (4 - length [1, 2, 3 :: byte]) 0) = Inr [0x80]"
    by (simp add: Fill_inplace_def fill_def)
  have c: "CryptBlocks_inplace shift_mode 100 ([1, 2, 3] @ [0x80]) = ([101, 102, 103, 228], 101)"
    by (simp add: CryptBlocks_inplace_def shift_mode_def)
  have d: "dst_Write mock_Write [(4, None)] [101, 102, 103, 228] = ((4, None), [])"
    by (simp add: dst_Write_def)
  show ?thesis
    using Close_cases
            [where w = "\<lparr>sink = [(4, None)], w_blockMode = 100, w_blockSize = 4, padding = None,
                          buffered = [], closed = True, fault = None\<rparr>"
               and push = mock_Write and cb = shift_mode]
          Close_cases
            [where w = "\<lparr>sink = [(4, None)], w_blockMode = 100, w_blockSize = 4, padding = None,
                          buffered = [], closed = False, fault = None\<rparr>"
               and push = mock_Write and cb = shift_mode]
          Close_cases
            [where w = "\<lparr>sink = [(4, None)], w_blockMode = 100, w_blockSize = 4, padding = None,
                          buffered = [1, 2, 3], closed = False, fault = None\<rparr>"
               and push = mock_Write and cb = shift_mode]
          Close_cases
            [where w = "\<lparr>sink = [(4, None)], w_blockMode = 100, w_blockSize = 4,
                          padding = Some BitPadding, buffered = [1, 2, 3], closed = False,
                          fault = None\<rparr>"
               and push = mock_Write and cb = shift_mode and f = BitPadding and tail = "[0x80]"
               and blk = "[101, 102, 103, 228]" and c' = 101 and n = 4 and e = None
               and s' = "[]"]
          f c d
    by auto
qed

end
